theory Spec2Isabelle
  imports Complex_Main
begin

section \<open>Conventions of the embedding\<close>

text \<open>
  The repository consists of \<^verbatim>\<open>adaboost.py\<close> (class \<^verbatim>\<open>AdaBoost\<close>) and
  \<^verbatim>\<open>quantum_kernels.py\<close> (class \<^verbatim>\<open>VectorizeKernel\<close>, the function
  \<^verbatim>\<open>get_entanglement_pattern\<close> and the circuit builders that call it).

  \<^item> Python integers are \<open>int\<close>. The \<^verbatim>\<open>float64\<close> arithmetic of numpy is idealised as
    arithmetic on \<open>real\<close> (no rounding, no overflow, no NaN): \<^verbatim>\<open>np.log\<close> is \<open>ln\<close>,
    \<^verbatim>\<open>np.exp\<close> is \<open>exp\<close>, and the literal \<^verbatim>\<open>1e-10\<close> is \<open>1 / 10 ^ 10\<close>.
  \<^item> The weighted errors are the exception. They are compared (\<^verbatim>\<open>error >= 1.0\<close>,
    \<^verbatim>\<open>np.argmin\<close>), and a comparison does not survive rounding: six weights of
    \<open>1 / 6\<close> sum to \<open>1\<close> over the reals and to \<^verbatim>\<open>0.9999999999999999\<close> in
    \<^verbatim>\<open>float64\<close>. The value the program gets for a weighted error is therefore not
    computed by the model but taken from a parameter \<open>np_sum\<close>, which stands for
    \<^verbatim>\<open>np.sum\<close> on the selected weights. Nothing is assumed about it, so every theorem
    about \<^verbatim>\<open>fit\<close> holds for whatever the program's summation returns. The exact
    summation \<open>sum_list\<close> is one such function; it describes the program where
    \<^verbatim>\<open>float64\<close> summation is exact, as for the single weight \<open>1.0\<close>.
  \<^item> Every exception the modelled code can raise is a value of \<open>error\<close>.
  \<^item> A method that mutates \<^verbatim>\<open>self\<close> returns the new object. A Python exception
    leaves the mutations made so far in place, so \<open>fit\<close> returns the object together
    with an optional error.
  \<^item> Weak classifiers and scalar kernels are arguments of the model, as they are
    arguments of the constructors in the code.
\<close>

datatype error = ValueError | IndexError | TypeError

section \<open>\<^verbatim>\<open>quantum_kernels.py\<close>: \<^verbatim>\<open>get_entanglement_pattern\<close>\<close>

text \<open>
  \<^verbatim>\<open>range(start, stop, step)\<close> as the list of its elements, with the element count
  CPython computes. The code calls it with the steps \<open>1\<close>, \<open>2\<close> and \<open>-1\<close> only
  (a zero step, which raises in Python, does not occur).
\<close>

definition py_range :: "int \<Rightarrow> int \<Rightarrow> int \<Rightarrow> int list" where
  "py_range start stop step =
     (if 0 < step then
        map (\<lambda>k. start + int k * step) [0..<nat ((stop - start + step - 1) div step)]
      else if step < 0 then
        map (\<lambda>k. start + int k * step) [0..<nat ((start - stop - step - 1) div (- step))]
      else [])"

text \<open>
  \<^verbatim>\<open>itertools.combinations(xs, 2)\<close>: the pairs of positions \<open>i < j\<close> of \<open>xs\<close>, in
  lexicographic order of the positions.
\<close>

fun combinations2 :: "'a list \<Rightarrow> ('a \<times> 'a) list" where
  "combinations2 [] = []"
| "combinations2 (x # xs) = map (Pair x) xs @ combinations2 xs"

text \<open>
  The branches of the \<^verbatim>\<open>match\<close> statement (lines 138--165). The generators the code
  returns are finite and raise nothing while they are consumed: in the branch
  \<^verbatim>\<open>'sca'\<close> the index \<^verbatim>\<open>(i - rep) % num_qubits\<close> is only computed for \<open>i\<close> in
  \<^verbatim>\<open>range(num_qubits)\<close>, hence for \<open>num_qubits > 0\<close>, where it lies in
  \<open>[0, num_qubits)\<close> and the circular list has \<open>num_qubits\<close> elements. Each
  generator is therefore modelled by the list of its elements. The recursive calls
  with the constant tags \<^verbatim>\<open>'linear'\<close> and \<^verbatim>\<open>'circular'\<close> are \<open>linear_pattern\<close> and
  \<open>circular_pattern\<close>. Python's \<^verbatim>\<open>%\<close> with a positive divisor is \<open>mod\<close> on \<open>int\<close>.
\<close>

definition linear_pattern :: "int \<Rightarrow> (int \<times> int) list" where
  "linear_pattern num_qubits = map (\<lambda>i. (i, i + 1)) (py_range 0 (num_qubits - 1) 1)"

definition circular_pattern :: "int \<Rightarrow> (int \<times> int) list" where
  "circular_pattern num_qubits = (num_qubits - 1, 0) # linear_pattern num_qubits"

definition sca_pattern :: "int \<Rightarrow> int \<Rightarrow> (int \<times> int) list" where
  "sca_pattern num_qubits rep =
     (let circ_pattern = circular_pattern num_qubits;
          pattern = map (\<lambda>i. circ_pattern ! nat ((i - rep) mod num_qubits))
                        (py_range 0 num_qubits 1)
      in if rep mod 2 = 1 then map (\<lambda>(i, j). (j, i)) pattern else pattern)"

definition get_entanglement_pattern ::
  "int \<Rightarrow> string \<Rightarrow> int \<Rightarrow> error + (int \<times> int) list" where
  "get_entanglement_pattern num_qubits entanglement rep =
     (if entanglement = ''full'' then
        Inr (combinations2 (py_range 0 num_qubits 1))
      else if entanglement = ''linear'' then
        Inr (linear_pattern num_qubits)
      else if entanglement = ''reverse_linear'' then
        Inr (map (\<lambda>i. (i, i - 1)) (py_range (num_qubits - 1) 0 (- 1)))
      else if entanglement = ''pairwise'' then
        Inr (map (\<lambda>i. (i, i + 1)) (py_range 0 (num_qubits - 1) 2)
             @ map (\<lambda>i. (i, i + 1)) (py_range 1 (num_qubits - 1) 2))
      else if entanglement = ''circular'' then
        Inr (circular_pattern num_qubits)
      else if entanglement = ''sca'' then
        Inr (sca_pattern num_qubits rep)
      else Inl ValueError)"

subsection \<open>The topology table of the specification\<close>

text \<open>
  The sequences of the specification's table, written from its words for a qubit count
  \<open>Q\<close>: \<open>[a..b]\<close> is the ascending list of the integers from \<open>a\<close> to \<open>b\<close>.
  \<open>spec_sca_rotated_left\<close> rotates the circular sequence left by \<open>rep\<close> positions
  (the element at index \<open>rep\<close> comes first), \<open>spec_sca_rotated_right\<close> rotates it
  right by \<open>rep\<close> positions (a left rotation by \<open>- rep\<close>); \<open>rotate n\<close> is the left
  rotation of lists.
\<close>

definition spec_full :: "int \<Rightarrow> (int \<times> int) list" where
  "spec_full Q = concat (map (\<lambda>i. map (Pair i) [i + 1..Q - 1]) [0..Q - 1])"

definition spec_linear :: "int \<Rightarrow> (int \<times> int) list" where
  "spec_linear Q = map (\<lambda>i. (i, i + 1)) [0..Q - 2]"

definition spec_reverse_linear :: "int \<Rightarrow> (int \<times> int) list" where
  "spec_reverse_linear Q = map (\<lambda>i. (i, i - 1)) (rev [1..Q - 1])"

definition spec_pairwise :: "int \<Rightarrow> (int \<times> int) list" where
  "spec_pairwise Q =
     map (\<lambda>i. (i, i + 1)) (filter even [0..Q - 2])
     @ map (\<lambda>i. (i, i + 1)) (filter odd [0..Q - 2])"

definition spec_circular :: "int \<Rightarrow> (int \<times> int) list" where
  "spec_circular Q = (Q - 1, 0) # spec_linear Q"

definition swap_if_odd :: "int \<Rightarrow> (int \<times> int) list \<Rightarrow> (int \<times> int) list" where
  "swap_if_odd rep ps = (if odd rep then map (\<lambda>(i, j). (j, i)) ps else ps)"

definition spec_sca_rotated_left :: "int \<Rightarrow> int \<Rightarrow> (int \<times> int) list" where
  "spec_sca_rotated_left Q rep = swap_if_odd rep (rotate (nat (rep mod Q)) (spec_circular Q))"

definition spec_sca_rotated_right :: "int \<Rightarrow> int \<Rightarrow> (int \<times> int) list" where
  "spec_sca_rotated_right Q rep = swap_if_odd rep (rotate (nat ((- rep) mod Q)) (spec_circular Q))"

section \<open>\<^verbatim>\<open>quantum_kernels.py\<close>: \<^verbatim>\<open>VectorizeKernel\<close>\<close>

text \<open>
  A list comprehension or loop whose body may raise: the results in order, or the first
  error.
\<close>

fun collect :: "('a \<Rightarrow> error + 'b) \<Rightarrow> 'a list \<Rightarrow> error + 'b list" where
  "collect f [] = Inr []"
| "collect f (x # xs) =
     (case f x of
        Inl e \<Rightarrow> Inl e
      | Inr v \<Rightarrow> (case collect f xs of Inl e \<Rightarrow> Inl e | Inr vs \<Rightarrow> Inr (v # vs)))"

text \<open>
  An \<^verbatim>\<open>np.ndarray\<close> of any dimension, as nested lists: \<open>Num\<close> is a 0-dimensional
  array, \<open>Arr\<close> of \<open>Num\<close>s a vector, \<open>Arr\<close> of vectors a matrix.
  \<open>shape0\<close> is \<^verbatim>\<open>X.shape[0]\<close> (the shape of a 0-dimensional array is the empty
  tuple, so the index raises) and \<open>iterate\<close> is the iteration \<^verbatim>\<open>enumerate(X)\<close> over
  the first axis. The scalar kernel is the callable handed to the constructor; it may
  raise.
\<close>

datatype ndarray = Num real | Arr "ndarray list"

type_synonym scalar_kernel = "ndarray \<Rightarrow> ndarray \<Rightarrow> error + real"

fun shape0 :: "ndarray \<Rightarrow> error + nat" where
  "shape0 (Num v) = Inl IndexError"
| "shape0 (Arr xs) = Inr (length xs)"

fun iterate :: "ndarray \<Rightarrow> error + ndarray list" where
  "iterate (Num v) = Inl TypeError"
| "iterate (Arr xs) = Inr xs"

text \<open>
  \<^verbatim>\<open>VectorizeKernel.__call__\<close> (lines 25--53): \<open>Y\<close> defaults to \<open>X\<close>, the result array
  is allocated from the two first dimensions, and the nested loops fill it row by row.
  The result is the list of the rows of \<^verbatim>\<open>computed_kernel\<close>. The method reads no other
  component of the shapes and compares none. The assignment of line 51 stores one
  number: the model covers the scalar kernels that return a number or raise (the type
  \<open>scalar_kernel\<close>), not a callable that returns an array.
\<close>

definition VectorizeKernel_call :: "scalar_kernel \<Rightarrow> ndarray \<Rightarrow> ndarray option \<Rightarrow> error + real list list" where
  "VectorizeKernel_call kernel_fn X Yopt =
     (let Y = (case Yopt of None \<Rightarrow> X | Some Y' \<Rightarrow> Y') in
      case shape0 X of
        Inl e \<Rightarrow> Inl e
      | Inr n \<Rightarrow>
          (case shape0 Y of
             Inl e \<Rightarrow> Inl e
           | Inr m \<Rightarrow>
               (case iterate X of
                  Inl e \<Rightarrow> Inl e
                | Inr xs \<Rightarrow>
                    collect (\<lambda>x. case iterate Y of
                                    Inl e \<Rightarrow> Inl e
                                  | Inr ys \<Rightarrow> collect (\<lambda>y. kernel_fn x y) ys) xs)))"

text \<open>
  A scalar kernel to run the wrapper on: the product of the first features of two
  non-empty vectors; on every other pair of arguments it raises \<^verbatim>\<open>IndexError\<close> (in
  Python, \<^verbatim>\<open>x[0] * y[0]\<close> behind a check that both arguments are 1-dimensional).
  Then the predicates "is a vector of \<open>F\<close> numbers" and "is an \<open>N \<times> F\<close> matrix".
\<close>

fun first_feature_product :: scalar_kernel where
  "first_feature_product (Arr (Num a # xs)) (Arr (Num b # ys)) = Inr (a * b)"
| "first_feature_product x y = Inl IndexError"

definition is_vector :: "nat \<Rightarrow> ndarray \<Rightarrow> bool" where
  "is_vector F x = (case x of Num v \<Rightarrow> False
                    | Arr vs \<Rightarrow> length vs = F \<and> list_all (\<lambda>v. case v of Num r \<Rightarrow> True | Arr zs \<Rightarrow> False) vs)"

definition is_matrix :: "nat \<Rightarrow> nat \<Rightarrow> ndarray \<Rightarrow> bool" where
  "is_matrix N F X = (case X of Num v \<Rightarrow> False
                      | Arr rows \<Rightarrow> length rows = N \<and> list_all (is_vector F) rows)"

section \<open>\<^verbatim>\<open>adaboost.py\<close>: class \<^verbatim>\<open>AdaBoost\<close>\<close>

text \<open>
  The sample matrix \<open>X\<close> is a list of rows, the label vector \<open>y\<close> and the weight
  vector \<open>w\<close> are lists of reals, and a weak classifier maps a sample matrix to a
  prediction vector. The fields of the record are the attributes \<^verbatim>\<open>__init__\<close> sets
  (lines 33--37).
\<close>

type_synonym matrix = "real list list"

type_synonym vec = "real list"

type_synonym classifier = "matrix \<Rightarrow> vec"

record AdaBoost =
  weak_classifiers :: "classifier list"
  n_estimators :: int
  num_workers :: int
  alphas :: "real list"
  selected_classifiers :: "classifier list"

definition AdaBoost_init :: "classifier list \<Rightarrow> int \<Rightarrow> int \<Rightarrow> AdaBoost" where
  "AdaBoost_init wcs n workers =
     \<lparr>weak_classifiers = wcs, n_estimators = n, num_workers = workers,
      alphas = [], selected_classifiers = []\<rparr>"

text \<open>
  Elementwise operations on one-dimensional arrays follow numpy's broadcasting: equal
  lengths, or one operand of length one; other shapes raise \<^verbatim>\<open>ValueError\<close> (for the
  comparison \<^verbatim>\<open>!=\<close> this is the behaviour of numpy from version 1.25 on).
  \<open>np_imul\<close> is the in-place \<^verbatim>\<open>w *= r\<close>, whose result keeps the shape of \<open>w\<close>.
\<close>

definition np_broadcast :: "('a \<Rightarrow> 'b \<Rightarrow> 'c) \<Rightarrow> 'a list \<Rightarrow> 'b list \<Rightarrow> error + 'c list" where
  "np_broadcast f xs ys =
     (if length xs = length ys then Inr (map2 f xs ys)
      else if length xs = 1 then Inr (map (f (hd xs)) ys)
      else if length ys = 1 then Inr (map (\<lambda>x. f x (hd ys)) xs)
      else Inl ValueError)"

definition np_imul :: "vec \<Rightarrow> vec \<Rightarrow> error + vec" where
  "np_imul w r =
     (if length r = length w then Inr (map2 (*) w r)
      else if length r = 1 then Inr (map (\<lambda>x. x * hd r) w)
      else Inl ValueError)"

text \<open>
  \<^verbatim>\<open>np.sum(w[y != preds])\<close> (line 61): a boolean index must have the length of the
  indexed array, else \<^verbatim>\<open>IndexError\<close>. The value of \<^verbatim>\<open>np.sum\<close> on the selected
  weights is \<open>np_sum\<close> of them.
\<close>

definition weighted_error :: "(real list \<Rightarrow> real) \<Rightarrow> vec \<Rightarrow> vec \<Rightarrow> vec \<Rightarrow> error + real" where
  "weighted_error np_sum w y preds =
     (case np_broadcast (\<lambda>a b. a \<noteq> b) y preds of
        Inl e \<Rightarrow> Inl e
      | Inr neq_mask \<Rightarrow>
          if length neq_mask \<noteq> length w then Inl IndexError
          else Inr (np_sum (map fst (filter snd (zip w neq_mask)))))"

text \<open>
  \<^verbatim>\<open>np.argmin\<close>: the first index of the least element; \<^verbatim>\<open>ValueError\<close> on an empty
  array.
\<close>

fun argmin_scan :: "nat \<Rightarrow> real \<Rightarrow> nat \<Rightarrow> real list \<Rightarrow> nat" where
  "argmin_scan best_i best_v i [] = best_i"
| "argmin_scan best_i best_v i (x # xs) =
     (if x < best_v then argmin_scan i x (Suc i) xs
      else argmin_scan best_i best_v (Suc i) xs)"

fun np_argmin :: "real list \<Rightarrow> error + nat" where
  "np_argmin [] = Inl ValueError"
| "np_argmin (x # xs) = Inr (argmin_scan 0 x 1 xs)"

text \<open>
  One pass through the body of the loop of \<^verbatim>\<open>fit\<close> (lines 59--80) from the weights
  \<open>w\<close>: it raises, or leaves the loop by \<^verbatim>\<open>break\<close>, or completes with new weights and
  the two \<^verbatim>\<open>append\<close>s. \<open>candidate_errors\<close> is the array \<^verbatim>\<open>errors\<close> of line 61.
  The three indexings by \<^verbatim>\<open>best_clf_idx\<close> are in range, since the index comes from
  \<^verbatim>\<open>np.argmin\<close> of an array as long as the candidate list. A division by zero raises
  nothing in numpy; in the model it is HOL's \<open>x / 0 = 0\<close>, and no entry is divided
  by zero from the weights the loop reaches (the errors are not negative, and the sum
  of a non-empty weight vector is positive). The sum \<^verbatim>\<open>w.sum()\<close> of line 76 only
  feeds that division and stays within the idealisation.
\<close>

datatype round = Raise error | Break | Continue vec AdaBoost

definition candidate_errors :: "(real list \<Rightarrow> real) \<Rightarrow> AdaBoost \<Rightarrow> matrix \<Rightarrow> vec \<Rightarrow> vec \<Rightarrow> error + real list" where
  "candidate_errors np_sum self X y w =
     collect (weighted_error np_sum w y) (map (\<lambda>clf. clf X) (weak_classifiers self))"

definition fit_round :: "(real list \<Rightarrow> real) \<Rightarrow> AdaBoost \<Rightarrow> matrix \<Rightarrow> vec \<Rightarrow> vec \<Rightarrow> round" where
  "fit_round np_sum self X y w =
     (let weak_clf_preds = map (\<lambda>clf. clf X) (weak_classifiers self) in
      case collect (weighted_error np_sum w y) weak_clf_preds of
        Inl e \<Rightarrow> Raise e
      | Inr errors \<Rightarrow>
          (case np_argmin errors of
             Inl e \<Rightarrow> Raise e
           | Inr best_clf_idx \<Rightarrow>
               let best_clf = weak_classifiers self ! best_clf_idx;
                   error = errors ! best_clf_idx
               in if error \<ge> 1 then Break
                  else
                    let alpha = 0.5 * ln ((1 - error) / (error + 1 / 10 ^ 10));
                        predictions = weak_clf_preds ! best_clf_idx
                    in case np_broadcast (*) (map (\<lambda>v. - alpha * v) y) predictions of
                         Inl e \<Rightarrow> Raise e
                       | Inr exponent \<Rightarrow>
                           (case np_imul w (map exp exponent) of
                              Inl e \<Rightarrow> Raise e
                            | Inr w1 \<Rightarrow>
                                Continue (map (\<lambda>v. v / sum_list w1) w1)
                                  (self\<lparr>alphas := alphas self @ [alpha],
                                        selected_classifiers :=
                                          selected_classifiers self @ [best_clf]\<rparr>))))"

text \<open>
  The loop \<^verbatim>\<open>for _ in range(self.n_estimators)\<close> run for at most \<open>k\<close> rounds, with
  the weight vector it ends with, and \<^verbatim>\<open>fit\<close> itself (lines 55--82), which starts
  from the uniform weights \<^verbatim>\<open>np.ones(n_samples) / n_samples\<close>.
\<close>

fun fit_loop :: "(real list \<Rightarrow> real) \<Rightarrow> nat \<Rightarrow> matrix \<Rightarrow> vec \<Rightarrow> vec \<Rightarrow> AdaBoost \<Rightarrow> error option \<times> vec \<times> AdaBoost" where
  "fit_loop np_sum 0 X y w self = (None, w, self)"
| "fit_loop np_sum (Suc k) X y w self =
     (case fit_round np_sum self X y w of
        Raise e \<Rightarrow> (Some e, w, self)
      | Break \<Rightarrow> (None, w, self)
      | Continue w' self' \<Rightarrow> fit_loop np_sum k X y w' self')"

definition initial_weights :: "matrix \<Rightarrow> vec" where
  "initial_weights X = (let n_samples = length X in map (\<lambda>v. v / real n_samples) (replicate n_samples 1))"

definition fit :: "(real list \<Rightarrow> real) \<Rightarrow> AdaBoost \<Rightarrow> matrix \<Rightarrow> vec \<Rightarrow> error option \<times> AdaBoost" where
  "fit np_sum self X y =
     (case fit_loop np_sum (nat (n_estimators self)) X y (initial_weights X) self of
        (status, w, self') \<Rightarrow> (status, self'))"

text \<open>
  \<^verbatim>\<open>predict\<close> (lines 99--106). \<^verbatim>\<open>np.array\<close> of a list of equally long vectors is a
  matrix, of no vectors the empty array of shape \<open>(0,)\<close>, and of vectors of different
  lengths an error (numpy from version 1.24 on). \<^verbatim>\<open>np.dot\<close> of a vector and a
  matrix is the vector of the weighted column sums; of two empty vectors it is the
  0-dimensional \<open>0.0\<close>; operands whose lengths do not agree raise. The result of
  \<^verbatim>\<open>np.where\<close> has the shape of the score: \<open>Arr0\<close> is a 0-dimensional array,
  \<open>Arr1\<close> a vector. With \<^verbatim>\<open>num_workers\<close> other than 1 the predictions are collected
  by \<^verbatim>\<open>ThreadPoolExecutor.map\<close>, which returns them in the order of the classifiers;
  the constructor of the pool raises \<^verbatim>\<open>ValueError\<close> for \<^verbatim>\<open>max_workers <= 0\<close>.
\<close>

datatype 'a nparr = Arr0 'a | Arr1 "'a list"

definition np_array :: "vec list \<Rightarrow> error + vec list" where
  "np_array rows =
     (if \<forall>r \<in> set rows. length r = length (hd rows) then Inr rows else Inl ValueError)"

definition np_dot :: "real list \<Rightarrow> vec list \<Rightarrow> error + real nparr" where
  "np_dot a rows =
     (if rows = [] then (if a = [] then Inr (Arr0 0) else Inl ValueError)
      else if length a \<noteq> length rows then Inl ValueError
      else Inr (Arr1 (foldl (\<lambda>acc (c, row). map2 (+) acc (map ((*) c) row))
                            (replicate (length (hd rows)) 0) (zip a rows))))"

fun np_where_pos :: "real nparr \<Rightarrow> int nparr" where
  "np_where_pos (Arr0 s) = Arr0 (if s > 0 then 1 else - 1)"
| "np_where_pos (Arr1 v) = Arr1 (map (\<lambda>s. if s > 0 then 1 else - 1) v)"

definition predict :: "AdaBoost \<Rightarrow> matrix \<Rightarrow> error + int nparr" where
  "predict self X =
     (if num_workers self \<noteq> 1 \<and> num_workers self \<le> 0 then Inl ValueError
      else
        case np_array (map (\<lambda>clf. clf X) (selected_classifiers self)) of
          Inl e \<Rightarrow> Inl e
        | Inr clf_preds \<Rightarrow>
            (case np_dot (alphas self) clf_preds of
               Inl e \<Rightarrow> Inl e
             | Inr d \<Rightarrow> Inr (np_where_pos d)))"

subsection \<open>Auxiliary notions and example data\<close>

text \<open>
  \<open>alpha_of\<close> names the right-hand side of line 71, \<open>weights_ok\<close> the invariant of the
  weight vector. \<open>sign_of_first\<close> is a decision stump on the first feature;
  \<open>example_ensemble n\<close> is \<^verbatim>\<open>AdaBoost([sign_of_first], n_estimators=n)\<close>, and
  \<open>example_once\<close>, \<open>example_twice\<close> are that object after one and two calls of
  \<^verbatim>\<open>fit\<close> on the single sample \<open>[[1]]\<close> with label \<open>[1]\<close>.

  \<open>float_like_sum\<close> is a summation that rounds as \<^verbatim>\<open>float64\<close> does next to \<open>1.0\<close>: an
  exact sum within half a unit in the last place of \<open>1\<close> becomes \<open>1\<close>.
  \<open>first_feature\<close> is the candidate \<^verbatim>\<open>lambda X: X[:, 0]\<close>, \<open>example_stump n\<close> is
  \<^verbatim>\<open>AdaBoost([first_feature], n_estimators=n)\<close>, and \<open>example_stump_once\<close> and
  \<open>example_weights\<close> are that object and the weight vector after the first round on
  the samples \<open>[[15], [15], [-1]]\<close> with the labels \<open>[15, 15, 1]\<close>: the candidate is
  right on the first two samples and wrong on the third, and the update leaves the first
  two with a weight below \<open>2 ^ -55\<close> of the third's.
\<close>

definition alpha_of :: "real \<Rightarrow> real" where
  "alpha_of err = 0.5 * ln ((1 - err) / (err + 1 / 10 ^ 10))"

definition weights_ok :: "vec \<Rightarrow> bool" where
  "weights_ok w \<longleftrightarrow> w \<noteq> [] \<and> sum_list w = 1 \<and> list_all (\<lambda>v. 0 < v) w"

definition sign_of_first :: classifier where
  "sign_of_first X = map (\<lambda>row. case row of [] \<Rightarrow> - 1 | v # _ \<Rightarrow> if 0 < v then 1 else - 1) X"

definition example_alpha :: real where
  "example_alpha = 0.5 * ln ((1 - 0) / (0 + 1 / 10 ^ 10))"

definition example_ensemble :: "int \<Rightarrow> AdaBoost" where
  "example_ensemble n = AdaBoost_init [sign_of_first] n 1"

definition example_once :: AdaBoost where
  "example_once = (example_ensemble 1)
     \<lparr>alphas := [example_alpha], selected_classifiers := [sign_of_first]\<rparr>"

definition example_twice :: AdaBoost where
  "example_twice = (example_ensemble 1)
     \<lparr>alphas := [example_alpha, example_alpha],
      selected_classifiers := [sign_of_first, sign_of_first]\<rparr>"






section \<open>Entanglement patterns: the table (C7) and the rotation of \<^verbatim>\<open>'sca'\<close> (C8)\<close>

lemma py_range_step1: "py_range a b 1 = [a..b - 1]"
proof (rule nth_equalityI)
  show "length (py_range a b 1) = length [a..b - 1]" by (simp add: py_range_def)
next
  fix i assume "i < length (py_range a b 1)"
  then show "py_range a b 1 ! i = [a..b - 1] ! i" by (simp add: py_range_def)
qed

lemma py_range_down1: "py_range a b (- 1) = rev [b + 1..a]"
proof (rule nth_equalityI)
  show "length (py_range a b (- 1)) = length (rev [b + 1..a])" by (simp add: py_range_def)
next
  fix i assume lt: "i < length (py_range a b (- 1))"
  then have i: "i < nat (a - b)" by (simp add: py_range_def)
  have "rev [b + 1..a] ! i = [b + 1..a] ! (nat (a - b) - Suc i)"
    using i by (simp add: rev_nth)
  also have "\<dots> = b + 1 + int (nat (a - b) - Suc i)"
    using i by (intro nth_upto) linarith
  also have "\<dots> = a - int i" using i by linarith
  finally show "py_range a b (- 1) ! i = rev [b + 1..a] ! i"
    using i by (simp add: py_range_def)
qed

lemma py_range_step2_rec:
  "py_range a b 2 = (if a < b then a # py_range (a + 2) b 2 else [])"
proof (cases "a < b")
  case False
  then show ?thesis by (simp add: py_range_def)
next
  case True
  define n where "n = nat ((b - (a + 2) + 2 - 1) div 2)"
  have n: "nat ((b - a + 2 - 1) div 2) = Suc n"
    using True unfolding n_def by linarith
  have "py_range a b 2 = map (\<lambda>k. a + int k * 2) [0..<Suc n]"
    using n by (simp add: py_range_def)
  also have "\<dots> = a # map (\<lambda>k. a + 2 + int k * 2) [0..<n]"
    by (simp add: upt_conv_Cons map_Suc_upt [symmetric] del: upt_Suc)
  also have "map (\<lambda>k. a + 2 + int k * 2) [0..<n] = py_range (a + 2) b 2"
    by (simp add: py_range_def n_def)
  finally show ?thesis using True by simp
qed

lemma filter_parity_upto:
  "filter (\<lambda>i. even (i - a)) [a..m] = py_range a (m + 1) 2"
proof (induction "nat (m + 1 - a)" arbitrary: a rule: less_induct)
  case less
  show ?case
  proof (cases "a \<le> m")
    case False
    then show ?thesis by (subst py_range_step2_rec) simp
  next
    case True
    show ?thesis
    proof (cases "a + 1 \<le> m")
      case False
      with True have "m = a" by simp
      then show ?thesis
        by (subst py_range_step2_rec, subst py_range_step2_rec) simp
    next
      case True2: True
      have "[a..m] = a # [a + 1..m]" using True by (rule upto_rec1)
      also have "[a + 1..m] = (a + 1) # [a + 1 + 1..m]" using True2 by (rule upto_rec1)
      also have "a + 1 + 1 = a + 2" by simp
      finally have "[a..m] = a # (a + 1) # [a + 2..m]" .
      moreover have "filter (\<lambda>i. even (i - a)) [a + 2..m] = filter (\<lambda>i. even (i - (a + 2))) [a + 2..m]"
        by (rule filter_cong) auto
      moreover have "filter (\<lambda>i. even (i - (a + 2))) [a + 2..m] = py_range (a + 2) (m + 1) 2"
        using True by (intro less) linarith
      ultimately show ?thesis
        using True by (subst py_range_step2_rec) simp
    qed
  qed
qed

lemma combinations2_upto:
  "combinations2 [a..b] = concat (map (\<lambda>i. map (Pair i) [i + 1..b]) [a..b])"
proof (induction "nat (b + 1 - a)" arbitrary: a)
  case 0
  then show ?case by simp
next
  case (Suc n)
  then have le: "a \<le> b" by linarith
  have "n = nat (b + 1 - (a + 1))" using Suc.hyps(2) by linarith
  then have IH: "combinations2 [a + 1..b] = concat (map (\<lambda>i. map (Pair i) [i + 1..b]) [a + 1..b])"
    by (rule Suc.hyps(1))
  show ?case using le IH by (simp add: upto_rec1 [of a b])
qed

lemma filter_even_upto: "filter even [0..m] = py_range 0 (m + 1) 2"
  using filter_parity_upto [of 0 m] by simp

lemma filter_odd_upto: "- 1 \<le> m \<Longrightarrow> filter odd [0..m] = py_range 1 (m + 1) 2"
proof (cases "0 \<le> m")
  case True
  have "[0..m] = 0 # [0 + 1..m]" using True by (rule upto_rec1)
  then have "filter odd [0..m] = filter odd [1..m]" by simp
  also have "\<dots> = filter (\<lambda>i. even (i - 1)) [1..m]" by (rule filter_cong) auto
  also have "\<dots> = py_range 1 (m + 1) 2" by (rule filter_parity_upto)
  finally show ?thesis .
next
  case False
  then show ?thesis by (subst py_range_step2_rec) simp
qed

lemma linear_pattern_spec: "linear_pattern Q = spec_linear Q"
  by (simp add: linear_pattern_def spec_linear_def py_range_step1)

lemma circular_pattern_spec: "circular_pattern Q = spec_circular Q"
  by (simp add: circular_pattern_def spec_circular_def linear_pattern_spec)

lemma length_spec_circular: "1 \<le> Q \<Longrightarrow> length (spec_circular Q) = nat Q"
  by (simp add: spec_circular_def spec_linear_def)

text \<open>
  C7. For every qubit count \<open>Q \<ge> 1\<close> the code yields exactly the sequence of the
  specification's table for the tags \<^verbatim>\<open>'full'\<close>, \<^verbatim>\<open>'linear'\<close>, \<^verbatim>\<open>'reverse_linear'\<close>,
  \<^verbatim>\<open>'pairwise'\<close> and \<^verbatim>\<open>'circular'\<close>, whatever the repetition index.
\<close>

theorem entanglement_pattern_table:
  assumes "1 \<le> Q"
  shows "get_entanglement_pattern Q ''full'' rep = Inr (spec_full Q)
       \<and> get_entanglement_pattern Q ''linear'' rep = Inr (spec_linear Q)
       \<and> get_entanglement_pattern Q ''reverse_linear'' rep = Inr (spec_reverse_linear Q)
       \<and> get_entanglement_pattern Q ''pairwise'' rep = Inr (spec_pairwise Q)
       \<and> get_entanglement_pattern Q ''circular'' rep = Inr (spec_circular Q)"
proof -
  have full: "combinations2 (py_range 0 Q 1) = spec_full Q"
    by (simp add: py_range_step1 combinations2_upto spec_full_def)
  have rl: "map (\<lambda>i. (i, i - 1)) (py_range (Q - 1) 0 (- 1)) = spec_reverse_linear Q"
    by (simp add: py_range_down1 spec_reverse_linear_def)
  have "filter even [0..Q - 2] = py_range 0 (Q - 1) 2"
    using filter_even_upto [of "Q - 2"] by simp
  moreover have "filter odd [0..Q - 2] = py_range 1 (Q - 1) 2"
    using filter_odd_upto [of "Q - 2"] assms by simp
  ultimately have pw: "map (\<lambda>i. (i, i + 1)) (py_range 0 (Q - 1) 2)
      @ map (\<lambda>i. (i, i + 1)) (py_range 1 (Q - 1) 2) = spec_pairwise Q"
    by (simp add: spec_pairwise_def)
  show ?thesis
    using full rl pw
    by (simp add: get_entanglement_pattern_def linear_pattern_spec circular_pattern_spec)
qed

text \<open>
  The theorem at \<open>Q = 4\<close>, with the table's sequences written out.
\<close>

theorem entanglement_pattern_table_witness:
  "(1::int) \<le> 4
   \<and> get_entanglement_pattern 4 ''full'' 0 = Inr [(0, 1), (0, 2), (0, 3), (1, 2), (1, 3), (2, 3)]
   \<and> get_entanglement_pattern 4 ''linear'' 0 = Inr [(0, 1), (1, 2), (2, 3)]
   \<and> get_entanglement_pattern 4 ''reverse_linear'' 0 = Inr [(3, 2), (2, 1), (1, 0)]
   \<and> get_entanglement_pattern 4 ''pairwise'' 0 = Inr [(0, 1), (2, 3), (1, 2)]
   \<and> get_entanglement_pattern 4 ''circular'' 0 = Inr [(3, 0), (0, 1), (1, 2), (2, 3)]"
proof -
  have "spec_full 4 = [(0, 1), (0, 2), (0, 3), (1, 2), (1, 3), (2, 3)]" by code_simp
  moreover have "spec_linear 4 = [(0, 1), (1, 2), (2, 3)]" by code_simp
  moreover have "spec_reverse_linear 4 = [(3, 2), (2, 1), (1, 0)]" by code_simp
  moreover have "spec_pairwise 4 = [(0, 1), (2, 3), (1, 2)]" by code_simp
  moreover have "spec_circular 4 = [(3, 0), (0, 1), (1, 2), (2, 3)]" by code_simp
  ultimately show ?thesis
    using entanglement_pattern_table [of 4 0] by simp
qed

lemma sca_pattern_nth:
  assumes "1 \<le> Q" and "i < nat Q"
  shows "length (sca_pattern Q rep) = nat Q"
    and "sca_pattern Q rep ! i =
           (if odd rep then prod.swap else id) (spec_circular Q ! nat ((int i - rep) mod Q))"
proof -
  have len: "length (py_range 0 Q 1) = nat Q" by (simp add: py_range_step1)
  have nth: "py_range 0 Q 1 ! i = int i"
    using assms by (simp add: py_range_step1)
  have odd: "rep mod 2 = 1 \<longleftrightarrow> odd rep" by presburger
  show "length (sca_pattern Q rep) = nat Q"
    using len by (simp add: sca_pattern_def Let_def)
  show "sca_pattern Q rep ! i =
           (if odd rep then prod.swap else id) (spec_circular Q ! nat ((int i - rep) mod Q))"
    using assms len nth odd
    by (simp add: sca_pattern_def Let_def circular_pattern_spec case_prod_beta prod.swap_def)
qed

lemma rotate_right_nth:
  assumes "1 \<le> Q" and "i < nat Q"
  shows "rotate (nat ((- rep) mod Q)) (spec_circular Q) ! i
           = spec_circular Q ! nat ((int i - rep) mod Q)"
proof -
  have Q: "0 < Q" using assms by simp
  have len: "length (spec_circular Q) = nat Q" using assms by (simp add: length_spec_circular)
  have "(nat ((- rep) mod Q) + i) mod nat Q = nat ((int i - rep) mod Q)"
  proof -
    have "int ((nat ((- rep) mod Q) + i) mod nat Q) = ((- rep) mod Q + int i) mod Q"
      using Q by (simp add: zmod_int)
    also have "\<dots> = (int i + - rep) mod Q"
      by (simp add: mod_add_right_eq add.commute)
    also have "int i + - rep = int i - rep" by simp
    finally show ?thesis by linarith
  qed
  then show ?thesis using assms len by (simp add: nth_rotate)
qed

text \<open>
  C8, as amended. For every \<open>Q \<ge> 1\<close> and every repetition index, the \<^verbatim>\<open>'sca'\<close>
  sequence is the circular sequence rotated to the right by \<open>rep\<close> positions, so that
  output index \<open>i\<close> holds \<open>circular[(i - rep) mod Q]\<close>, with the two elements of every
  pair swapped when \<open>rep\<close> is odd.
\<close>

theorem sca_pattern_rotates_right:
  assumes "1 \<le> Q"
  shows "get_entanglement_pattern Q ''sca'' rep = Inr (spec_sca_rotated_right Q rep)
       \<and> length (spec_sca_rotated_right Q rep) = nat Q
       \<and> (\<forall>i < nat Q. spec_sca_rotated_right Q rep ! i =
             (if odd rep then prod.swap else id) (spec_circular Q ! nat ((int i - rep) mod Q)))"
proof -
  have len: "length (spec_sca_rotated_right Q rep) = nat Q"
    using assms by (simp add: spec_sca_rotated_right_def swap_if_odd_def length_spec_circular)
  have nth: "spec_sca_rotated_right Q rep ! i =
             (if odd rep then prod.swap else id) (spec_circular Q ! nat ((int i - rep) mod Q))"
    if "i < nat Q" for i
    using that assms rotate_right_nth [OF assms that, of rep]
    by (simp add: spec_sca_rotated_right_def swap_if_odd_def length_spec_circular
        case_prod_beta prod.swap_def)
  have "sca_pattern Q rep = spec_sca_rotated_right Q rep"
  proof (rule nth_equalityI)
    show "length (sca_pattern Q rep) = length (spec_sca_rotated_right Q rep)"
      using len sca_pattern_nth(1) [OF assms, of 0 rep] assms by simp
  next
    fix i assume "i < length (sca_pattern Q rep)"
    then have i: "i < nat Q" using sca_pattern_nth(1) [OF assms, of 0 rep] assms by simp
    show "sca_pattern Q rep ! i = spec_sca_rotated_right Q rep ! i"
      using sca_pattern_nth(2) [OF assms i, of rep] nth [OF i] by simp
  qed
  then show ?thesis using len nth by (simp add: get_entanglement_pattern_def)
qed

text \<open>
  The theorem at \<open>Q = 5\<close>, \<open>rep = 1\<close>.
\<close>

theorem sca_pattern_rotates_right_witness:
  "(1::int) \<le> 5
   \<and> get_entanglement_pattern 5 ''sca'' 1 = Inr [(4, 3), (0, 4), (1, 0), (2, 1), (3, 2)]"
proof -
  have "spec_sca_rotated_right 5 1 = [(4, 3), (0, 4), (1, 0), (2, 1), (3, 2)]" by code_simp
  then show ?thesis
    using sca_pattern_rotates_right [of 5 1] by simp
qed

text \<open>
  C8 as stated asks for a rotation to the left by \<open>rep\<close> positions. At \<open>Q = 5\<close>,
  \<open>rep = 2\<close> the code returns the circular sequence \<open>(4,0),(0,1),(1,2),(2,3),(3,4)\<close>
  with its last two pairs moved to the front, and not with its first two pairs moved to
  the back.
\<close>

theorem sca_not_rotated_left:
  "get_entanglement_pattern 5 ''sca'' 2 = Inr [(2, 3), (3, 4), (4, 0), (0, 1), (1, 2)]
   \<and> spec_sca_rotated_left 5 2 = [(1, 2), (2, 3), (3, 4), (4, 0), (0, 1)]
   \<and> get_entanglement_pattern 5 ''sca'' 2 \<noteq> Inr (spec_sca_rotated_left 5 2)"
proof -
  have a: "get_entanglement_pattern 5 ''sca'' 2 = Inr [(2, 3), (3, 4), (4, 0), (0, 1), (1, 2)]"
    by code_simp
  have b: "spec_sca_rotated_left 5 2 = [(1, 2), (2, 3), (3, 4), (4, 0), (0, 1)]"
    by code_simp
  show ?thesis unfolding a b by simp
qed

section \<open>\<^verbatim>\<open>VectorizeKernel\<close>: the kernel matrix and the missing shape checks (C9)\<close>

lemma collect_Inr:
  "collect f xs = Inr vs \<Longrightarrow> length vs = length xs \<and> (\<forall>i<length xs. f (xs ! i) = Inr (vs ! i))"
proof (induction xs arbitrary: vs)
  case Nil
  then show ?case by simp
next
  case (Cons x xs)
  from Cons.prems obtain v vs' where v: "f x = Inr v" and vs': "collect f xs = Inr vs'"
    and vs: "vs = v # vs'"
    by (auto split: sum.splits)
  from Cons.IH [OF vs'] have "length vs' = length xs"
    and "\<forall>i<length xs. f (xs ! i) = Inr (vs' ! i)" by simp_all
  then show ?case using v vs by (auto simp: nth_Cons split: nat.splits)
qed

lemma collect_map: "(\<forall>x\<in>set xs. f x = Inr (g x)) \<Longrightarrow> collect f xs = Inr (map g xs)"
  by (induction xs) simp_all

lemma collect_Inl: "collect f xs = Inl e \<Longrightarrow> \<exists>x\<in>set xs. f x = Inl e"
  by (induction xs) (auto split: sum.splits)

lemma collect_Inr_iff: "(\<exists>vs. collect f xs = Inr vs) \<longleftrightarrow> (\<forall>x\<in>set xs. \<exists>v. f x = Inr v)"
  by (induction xs) (auto split: sum.splits)

text \<open>
  C9, as amended. Let \<open>X\<close> and \<open>Y\<close> be arrays of dimension at least one (in
  particular an \<open>N \<times> F\<close> and an \<open>M \<times> F\<close> matrix; \<open>Y\<close> is \<open>X\<close> when omitted) and
  let the scalar kernel return a number or raise on each pair of their rows. If it
  returns a number on every pair, the call returns the \<open>N \<times> M\<close> matrix whose entry
  \<open>(i, j)\<close> is the kernel's value on row \<open>i\<close> of \<open>X\<close> and row \<open>j\<close> of \<open>Y\<close>. The call
  returns exactly when the kernel returns a number on every pair, and an error of the
  call is an error the kernel raised on some pair: the wrapper compares no shapes. The
  only error the wrapper raises itself is \<^verbatim>\<open>IndexError\<close>, for a 0-dimensional \<open>X\<close> or
  \<open>Y\<close>.
\<close>

theorem VectorizeKernel_call_entries:
  assumes "Yopt = Some (Arr ys) \<or> Yopt = None \<and> ys = xs"
  shows "((\<forall>x\<in>set xs. \<forall>y\<in>set ys. kernel_fn x y = Inr (k x y)) \<longrightarrow>
            VectorizeKernel_call kernel_fn (Arr xs) Yopt = Inr (map (\<lambda>x. map (k x) ys) xs))
       \<and> ((\<exists>K. VectorizeKernel_call kernel_fn (Arr xs) Yopt = Inr K) \<longleftrightarrow>
            (\<forall>x\<in>set xs. \<forall>y\<in>set ys. \<exists>v. kernel_fn x y = Inr v))
       \<and> (\<forall>e. VectorizeKernel_call kernel_fn (Arr xs) Yopt = Inl e \<longrightarrow>
            (\<exists>x\<in>set xs. \<exists>y\<in>set ys. kernel_fn x y = Inl e))
       \<and> VectorizeKernel_call kernel_fn (Num v) Yopt = Inl IndexError
       \<and> VectorizeKernel_call kernel_fn (Arr xs) (Some (Num v)) = Inl IndexError"
proof -
  have Y: "(case Yopt of None \<Rightarrow> Arr xs | Some Y' \<Rightarrow> Y') = Arr ys"
    using assms by auto
  have call: "VectorizeKernel_call kernel_fn (Arr xs) Yopt
                = collect (\<lambda>x. collect (\<lambda>y. kernel_fn x y) ys) xs"
    by (simp add: VectorizeKernel_call_def Y)
  have entries: "VectorizeKernel_call kernel_fn (Arr xs) Yopt = Inr (map (\<lambda>x. map (k x) ys) xs)"
    if "\<forall>x\<in>set xs. \<forall>y\<in>set ys. kernel_fn x y = Inr (k x y)"
  proof -
    have "collect (\<lambda>y. kernel_fn x y) ys = Inr (map (k x) ys)" if "x \<in> set xs" for x
      using \<open>\<forall>x\<in>set xs. \<forall>y\<in>set ys. kernel_fn x y = Inr (k x y)\<close> that
      by (intro collect_map) simp
    then have "collect (\<lambda>x. collect (\<lambda>y. kernel_fn x y) ys) xs = Inr (map (\<lambda>x. map (k x) ys) xs)"
      by (intro collect_map) simp
    then show ?thesis by (simp add: call)
  qed
  have returns: "(\<exists>K. VectorizeKernel_call kernel_fn (Arr xs) Yopt = Inr K) \<longleftrightarrow>
            (\<forall>x\<in>set xs. \<forall>y\<in>set ys. \<exists>v. kernel_fn x y = Inr v)"
    unfolding call collect_Inr_iff by simp
  have raises: "\<exists>x\<in>set xs. \<exists>y\<in>set ys. kernel_fn x y = Inl e"
    if "VectorizeKernel_call kernel_fn (Arr xs) Yopt = Inl e" for e
  proof -
    from that obtain x where "x \<in> set xs" and "collect (\<lambda>y. kernel_fn x y) ys = Inl e"
      unfolding call by (blast dest: collect_Inl)
    then show ?thesis by (blast dest: collect_Inl)
  qed
  have zero: "VectorizeKernel_call kernel_fn (Num v) Yopt = Inl IndexError"
    "VectorizeKernel_call kernel_fn (Arr xs) (Some (Num v)) = Inl IndexError"
    by (simp_all add: VectorizeKernel_call_def)
  show ?thesis using entries returns raises zero by blast
qed

text \<open>
  The theorem on the \<open>2 \<times> 2\<close> identity matrix with the kernel
  \<open>first_feature_product\<close>.
\<close>

theorem VectorizeKernel_call_entries_witness:
  "list_all (\<lambda>x. list_all (\<lambda>y. first_feature_product x y = Inr (case (x, y) of
        (Arr (Num a # _), Arr (Num b # _)) \<Rightarrow> a * b | _ \<Rightarrow> 0)) [Arr [Num 1, Num 0], Arr [Num 0, Num 1]])
      [Arr [Num 1, Num 0], Arr [Num 0, Num 1]]
   \<and> VectorizeKernel_call first_feature_product (Arr [Arr [Num 1, Num 0], Arr [Num 0, Num 1]]) None
       = Inr [[1, 0], [0, 0]]"
proof -
  let ?k = "\<lambda>x y. case (x, y) of (Arr (Num a # _), Arr (Num b # _)) \<Rightarrow> a * b | _ \<Rightarrow> (0::real)"
  let ?xs = "[Arr [Num 1, Num 0], Arr [Num 0, Num 1]]"
  have h1: "\<forall>x\<in>set ?xs. \<forall>y\<in>set ?xs. first_feature_product x y = Inr (?k x y)" by simp
  have h2: "(None :: ndarray option) = Some (Arr ?xs) \<or> (None :: ndarray option) = None \<and> ?xs = ?xs"
    by simp
  from VectorizeKernel_call_entries [OF h2, of first_feature_product ?k] h1
  have "VectorizeKernel_call first_feature_product (Arr ?xs) None = Inr (map (\<lambda>x. map (?k x) ?xs) ?xs)"
    by blast
  then have "VectorizeKernel_call first_feature_product (Arr ?xs) None = Inr [[1, 0], [0, 0]]"
    by simp
  then show ?thesis using h1 by (simp add: list_all_iff)
qed

text \<open>
  C9 as stated asks for a failure when the feature dimensions differ or an argument is
  not 2-dimensional. A \<open>1 \<times> 3\<close> matrix against a \<open>1 \<times> 1\<close> matrix returns a
  result, and a vector is accepted with a kernel on numbers.
\<close>

theorem VectorizeKernel_call_accepts_mismatch:
  "is_matrix 1 3 (Arr [Arr [Num 1, Num 2, Num 3]])
   \<and> is_matrix 1 1 (Arr [Arr [Num 4]])
   \<and> VectorizeKernel_call first_feature_product
        (Arr [Arr [Num 1, Num 2, Num 3]]) (Some (Arr [Arr [Num 4]])) = Inr [[4]]
   \<and> VectorizeKernel_call (\<lambda>x y. Inr 1) (Arr [Num 1, Num 2]) None = Inr [[1, 1], [1, 1]]"
  by (simp add: VectorizeKernel_call_def is_matrix_def is_vector_def)

section \<open>\<^verbatim>\<open>AdaBoost.fit\<close>: one boosting round (C1)\<close>

lemma argmin_scan_first_min:
  assumes "length pre = i" and "bi < i" and "pre ! bi = bv"
    and "\<forall>j<i. bv \<le> pre ! j" and "\<forall>j<bi. bv < pre ! j"
  shows "argmin_scan bi bv i xs < length (pre @ xs)
       \<and> (\<forall>j<length (pre @ xs). (pre @ xs) ! argmin_scan bi bv i xs \<le> (pre @ xs) ! j)
       \<and> (\<forall>j<argmin_scan bi bv i xs. (pre @ xs) ! argmin_scan bi bv i xs < (pre @ xs) ! j)"
  using assms
proof (induction xs arbitrary: pre i bi bv)
  case Nil
  then show ?case by simp
next
  case (Cons x xs)
  have app: "pre @ x # xs = (pre @ [x]) @ xs" by simp
  show ?case
  proof (cases "x < bv")
    case True
    have "argmin_scan i x (Suc i) xs < length ((pre @ [x]) @ xs)
       \<and> (\<forall>j<length ((pre @ [x]) @ xs). ((pre @ [x]) @ xs) ! argmin_scan i x (Suc i) xs \<le> ((pre @ [x]) @ xs) ! j)
       \<and> (\<forall>j<argmin_scan i x (Suc i) xs. ((pre @ [x]) @ xs) ! argmin_scan i x (Suc i) xs < ((pre @ [x]) @ xs) ! j)"
    proof (rule Cons.IH)
      show "length (pre @ [x]) = Suc i" using Cons.prems by simp
      show "i < Suc i" by simp
      show "(pre @ [x]) ! i = x" using Cons.prems by (simp add: nth_append)
      have below: "x < pre ! j" if "j < i" for j
      proof -
        have "bv \<le> pre ! j" using Cons.prems(4) that by simp
        then show ?thesis using True by simp
      qed
      show "\<forall>j<Suc i. x \<le> (pre @ [x]) ! j"
        using Cons.prems(1) below by (auto simp: nth_append less_Suc_eq intro: less_imp_le)
      show "\<forall>j<i. x < (pre @ [x]) ! j"
        using Cons.prems(1) below by (auto simp: nth_append)
    qed
    then show ?thesis using True unfolding app by simp
  next
    case False
    have "argmin_scan bi bv (Suc i) xs < length ((pre @ [x]) @ xs)
       \<and> (\<forall>j<length ((pre @ [x]) @ xs). ((pre @ [x]) @ xs) ! argmin_scan bi bv (Suc i) xs \<le> ((pre @ [x]) @ xs) ! j)
       \<and> (\<forall>j<argmin_scan bi bv (Suc i) xs. ((pre @ [x]) @ xs) ! argmin_scan bi bv (Suc i) xs < ((pre @ [x]) @ xs) ! j)"
    proof (rule Cons.IH)
      show "length (pre @ [x]) = Suc i" using Cons.prems by simp
      show "bi < Suc i" using Cons.prems by simp
      show "(pre @ [x]) ! bi = bv" using Cons.prems by (simp add: nth_append)
      show "\<forall>j<Suc i. bv \<le> (pre @ [x]) ! j"
        using Cons.prems False by (auto simp: nth_append less_Suc_eq)
      show "\<forall>j<bi. bv < (pre @ [x]) ! j"
        using Cons.prems by (auto simp: nth_append)
    qed
    then show ?thesis using False unfolding app by simp
  qed
qed

lemma np_argmin_first_min:
  assumes "np_argmin es = Inr b"
  shows "b < length es \<and> es ! b = Min (set es) \<and> (\<forall>j<b. es ! b < es ! j)"
proof -
  from assms obtain x xs where es: "es = x # xs" and b: "b = argmin_scan 0 x 1 xs"
    by (cases es) auto
  have *: "b < length es \<and> (\<forall>j<length es. es ! b \<le> es ! j) \<and> (\<forall>j<b. es ! b < es ! j)"
    using argmin_scan_first_min [of "[x]" 1 0 x xs] unfolding es b by simp
  then have "es ! b \<in> set es" by simp
  moreover have "\<forall>v\<in>set es. es ! b \<le> v" using * by (auto simp: in_set_conv_nth)
  ultimately have "Min (set es) = es ! b" by (intro Min_eqI) auto
  then show ?thesis using * by simp
qed

lemma np_argmin_Inr: "es \<noteq> [] \<Longrightarrow> \<exists>b. np_argmin es = Inr b"
  by (cases es) auto

lemma np_broadcast_shape:
  assumes "np_broadcast f xs ys = Inr r"
  shows "\<exists>r'. np_broadcast g (map h xs) ys = Inr r' \<and> length r' = length r"
  using assms by (auto simp: np_broadcast_def split: if_splits)

lemma weighted_error_shape:
  assumes "weighted_error np_sum w y p = Inr e"
  shows "\<exists>m. np_broadcast (\<lambda>a b. a \<noteq> b) y p = Inr m \<and> length m = length w"
  using assms by (auto simp: weighted_error_def split: sum.splits if_splits)

lemma fit_round_Break:
  assumes "candidate_errors np_sum self X y w = Inr es" and "np_argmin es = Inr b" and "1 \<le> es ! b"
  shows "fit_round np_sum self X y w = Break"
  using assms by (simp add: fit_round_def candidate_errors_def Let_def)

lemma fit_round_Continue:
  assumes es: "candidate_errors np_sum self X y w = Inr es" and b: "np_argmin es = Inr b"
    and lt: "es ! b < 1"
  shows "\<exists>ex. np_broadcast (*) (map (\<lambda>v. - alpha_of (es ! b) * v) y) (map (\<lambda>clf. clf X) (weak_classifiers self) ! b) = Inr ex
            \<and> length ex = length w
            \<and> fit_round np_sum self X y w =
                Continue (map (\<lambda>v. v / sum_list (map2 (*) w (map exp ex))) (map2 (*) w (map exp ex)))
                  (self\<lparr>alphas := alphas self @ [alpha_of (es ! b)],
                        selected_classifiers :=
                          selected_classifiers self @ [weak_classifiers self ! b]\<rparr>)"
proof -
  let ?preds = "map (\<lambda>clf. clf X) (weak_classifiers self)"
  have c: "collect (weighted_error np_sum w y) ?preds = Inr es"
    using es by (simp add: candidate_errors_def)
  have blen: "b < length es" using np_argmin_first_min [OF b] by simp
  have nlt: "(1 \<le> es ! b) = False" using lt by simp
  from collect_Inr [OF c] blen have "weighted_error np_sum w y (?preds ! b) = Inr (es ! b)" by simp
  from weighted_error_shape [OF this] obtain m
    where m: "np_broadcast (\<lambda>a b. a \<noteq> b) y (?preds ! b) = Inr m" and lm: "length m = length w"
    by blast
  from np_broadcast_shape [OF m, of "(*)" "\<lambda>v. - alpha_of (es ! b) * v"] lm obtain ex
    where ex: "np_broadcast (*) (map (\<lambda>v. - alpha_of (es ! b) * v) y) (?preds ! b) = Inr ex"
      and lex: "length ex = length w"
    by auto
  have imul: "np_imul w (map exp ex) = Inr (map2 (*) w (map exp ex))"
    using lex by (simp add: np_imul_def)
  have "fit_round np_sum self X y w =
      Continue (map (\<lambda>v. v / sum_list (map2 (*) w (map exp ex))) (map2 (*) w (map exp ex)))
        (self\<lparr>alphas := alphas self @ [alpha_of (es ! b)],
              selected_classifiers := selected_classifiers self @ [weak_classifiers self ! b]\<rparr>)"
    using nlt
    by (simp only: fit_round_def Let_def c b sum.case if_False alpha_of_def [symmetric] ex imul)
  then show ?thesis using ex lex by blast
qed

lemma fit_round_Continue_records:
  assumes "fit_round np_sum self X y w = Continue w' self'"
  shows "\<exists>a c. self' = self\<lparr>alphas := alphas self @ [a],
                            selected_classifiers := selected_classifiers self @ [c]\<rparr>"
  using assms
  by (auto simp: fit_round_def Let_def split: sum.splits if_splits)

lemma candidate_errors_length:
  "candidate_errors np_sum self X y w = Inr es \<Longrightarrow> length es = length (weak_classifiers self)"
  using collect_Inr [of "weighted_error np_sum w y" "map (\<lambda>clf. clf X) (weak_classifiers self)" es]
  by (simp add: candidate_errors_def)

lemma fit_loop_Suc_Continue:
  "fit_round np_sum self X y w = Continue w' self' \<Longrightarrow> fit_loop np_sum (Suc k) X y w self = fit_loop np_sum k X y w' self'"
  by simp

lemma ex_errors_half:
  "candidate_errors sum_list (AdaBoost_init [sign_of_first] 1 1) [[1], [- 1]] [1, 1] [1 / 2, 1 / 2] = Inr [1 / 2]"
  by (simp add: candidate_errors_def AdaBoost_init_def sign_of_first_def weighted_error_def
      np_broadcast_def)








lemma ex_round_fresh:
  "fit_round sum_list (example_ensemble 1) [[1]] [1] [1] = Continue [1] example_once"
  by (simp add: fit_round_def example_ensemble_def example_once_def AdaBoost_init_def
      sign_of_first_def weighted_error_def np_broadcast_def np_imul_def Let_def
      example_alpha_def)

lemma ex_round_again:
  "fit_round sum_list example_once [[1]] [1] [1] = Continue [1] example_twice"
  by (simp add: fit_round_def example_ensemble_def example_once_def example_twice_def
      AdaBoost_init_def sign_of_first_def weighted_error_def np_broadcast_def np_imul_def
      Let_def example_alpha_def)

lemma ex_fit_fresh: "fit sum_list (example_ensemble 1) [[1]] [1] = (None, example_once)"
proof -
  have n: "nat (n_estimators (example_ensemble 1)) = Suc 0"
    by (simp add: example_ensemble_def AdaBoost_init_def)
  have w: "initial_weights [[1]] = [1]" by (simp add: initial_weights_def)
  show ?thesis unfolding fit_def n w using ex_round_fresh by simp
qed

lemma ex_fit_again: "fit sum_list example_once [[1]] [1] = (None, example_twice)"
proof -
  have n: "nat (n_estimators example_once) = Suc 0"
    by (simp add: example_once_def example_ensemble_def AdaBoost_init_def)
  have w: "initial_weights [[1]] = [1]" by (simp add: initial_weights_def)
  show ?thesis unfolding fit_def n w using ex_round_again by simp
qed

text \<open>
  C1. In a boosting round whose candidate errors, as the program's summation returns
  them, have a minimum below 1, the round completes (nothing raises), the classifier
  chosen is one of least error, and the weight appended for it is
  \<open>0.5 * ln ((1 - error) / (error + 1 / 10 ^ 10))\<close> with \<open>error\<close> the minimum itself:
  the constant is added to the denominator only and the error is not clamped. The loop
  goes on from the state of that round.
\<close>

theorem fit_round_alpha_formula:
  assumes "candidate_errors np_sum self X y w = Inr es"
    and "weak_classifiers self \<noteq> []"
    and "Min (set es) < 1"
  shows "\<exists>b w'. np_argmin es = Inr b \<and> es ! b = Min (set es)
          \<and> fit_round np_sum self X y w =
              Continue w'
                (self\<lparr>alphas := alphas self
                         @ [0.5 * ln ((1 - Min (set es)) / (Min (set es) + 1 / 10 ^ 10))],
                      selected_classifiers :=
                        selected_classifiers self @ [weak_classifiers self ! b]\<rparr>)
          \<and> fit_loop np_sum (Suc k) X y w self =
              fit_loop np_sum k X y w'
                (self\<lparr>alphas := alphas self
                         @ [0.5 * ln ((1 - Min (set es)) / (Min (set es) + 1 / 10 ^ 10))],
                      selected_classifiers :=
                        selected_classifiers self @ [weak_classifiers self ! b]\<rparr>)"
proof -
  have "es \<noteq> []" using candidate_errors_length [OF assms(1)] assms(2) by auto
  then obtain b where b: "np_argmin es = Inr b" using np_argmin_Inr by blast
  have m: "es ! b = Min (set es)" using np_argmin_first_min [OF b] by simp
  then have lt: "es ! b < 1" using assms(3) by simp
  from fit_round_Continue [OF assms(1) b lt] obtain w' where
    r: "fit_round np_sum self X y w =
          Continue w' (self\<lparr>alphas := alphas self @ [alpha_of (es ! b)],
                            selected_classifiers :=
                              selected_classifiers self @ [weak_classifiers self ! b]\<rparr>)"
    by blast
  note r' = r [unfolded alpha_of_def m]
  show ?thesis
    using b m r' fit_loop_Suc_Continue [OF r', of k] by blast
qed

text \<open>
  The theorem on two samples of which the stump gets one wrong: the error is \<open>1 / 2\<close>.
\<close>

theorem fit_round_alpha_formula_witness:
  "candidate_errors sum_list (AdaBoost_init [sign_of_first] 1 1) [[1], [- 1]] [1, 1] [1 / 2, 1 / 2] = Inr [1 / 2]
   \<and> weak_classifiers (AdaBoost_init [sign_of_first] 1 1) \<noteq> []
   \<and> Min (set [1 / 2 :: real]) < 1
   \<and> (\<exists>w'. fit_round sum_list (AdaBoost_init [sign_of_first] 1 1) [[1], [- 1]] [1, 1] [1 / 2, 1 / 2] =
          Continue w'
            ((AdaBoost_init [sign_of_first] 1 1)
               \<lparr>alphas := [0.5 * ln ((1 - 1 / 2) / (1 / 2 + 1 / 10 ^ 10))],
                selected_classifiers := [sign_of_first]\<rparr>))"
proof -
  have h2: "weak_classifiers (AdaBoost_init [sign_of_first] 1 1) \<noteq> []"
    by (simp add: AdaBoost_init_def)
  have h3: "Min (set [1 / 2 :: real]) < 1" by simp
  have m: "Min (set [1 / 2 :: real]) = 1 / 2" by simp
  from fit_round_alpha_formula [OF ex_errors_half h2 h3, of 0]
  obtain b w' where b: "np_argmin [1 / 2 :: real] = Inr b"
    and r: "fit_round sum_list (AdaBoost_init [sign_of_first] 1 1) [[1], [- 1]] [1, 1] [1 / 2, 1 / 2] =
          Continue w'
            ((AdaBoost_init [sign_of_first] 1 1)
               \<lparr>alphas := alphas (AdaBoost_init [sign_of_first] 1 1)
                   @ [0.5 * ln ((1 - Min (set [1 / 2])) / (Min (set [1 / 2]) + 1 / 10 ^ 10))],
                selected_classifiers := selected_classifiers (AdaBoost_init [sign_of_first] 1 1)
                   @ [weak_classifiers (AdaBoost_init [sign_of_first] 1 1) ! b]\<rparr>)"
    by blast
  from b have b0: "b = 0" by simp
  have "fit_round sum_list (AdaBoost_init [sign_of_first] 1 1) [[1], [- 1]] [1, 1] [1 / 2, 1 / 2] =
          Continue w'
            ((AdaBoost_init [sign_of_first] 1 1)
               \<lparr>alphas := [0.5 * ln ((1 - 1 / 2) / (1 / 2 + 1 / 10 ^ 10))],
                selected_classifiers := [sign_of_first]\<rparr>)"
    using r unfolding m b0 by (simp add: AdaBoost_init_def)
  then show ?thesis using ex_errors_half h2 h3 by blast
qed

section \<open>\<^verbatim>\<open>AdaBoost.fit\<close>: early exit and the records of the ensemble (C2, C10)\<close>

lemma fit_loop_records:
  "fit_loop np_sum k X y w self = (st, w', self') \<Longrightarrow>
     \<exists>as cs. self' = self\<lparr>alphas := alphas self @ as,
                            selected_classifiers := selected_classifiers self @ cs\<rparr>
            \<and> length as = length cs \<and> length as \<le> k"
proof (induction k arbitrary: w self)
  case 0
  then have "self' = self\<lparr>alphas := alphas self @ [],
                           selected_classifiers := selected_classifiers self @ []\<rparr>"
    by simp
  then show ?case by (metis le0 list.size(3))
next
  case (Suc k)
  show ?case
  proof (cases "fit_round np_sum self X y w")
    case (Raise e)
    then have "self' = self\<lparr>alphas := alphas self @ [],
                           selected_classifiers := selected_classifiers self @ []\<rparr>"
      using Suc.prems by simp
    then show ?thesis by (metis le0 list.size(3))
  next
    case Break
    then have "self' = self\<lparr>alphas := alphas self @ [],
                           selected_classifiers := selected_classifiers self @ []\<rparr>"
      using Suc.prems by simp
    then show ?thesis by (metis le0 list.size(3))
  next
    case (Continue w1 self1)
    from fit_round_Continue_records [OF Continue] obtain a c where
      s1: "self1 = self\<lparr>alphas := alphas self @ [a],
                         selected_classifiers := selected_classifiers self @ [c]\<rparr>"
      by blast
    have "fit_loop np_sum k X y w1 self1 = (st, w', self')" using Continue Suc.prems by simp
    from Suc.IH [OF this] obtain as cs where
      s': "self' = self1\<lparr>alphas := alphas self1 @ as,
                          selected_classifiers := selected_classifiers self1 @ cs\<rparr>"
      and l: "length as = length cs" "length as \<le> k"
      by blast
    have "self' = self\<lparr>alphas := alphas self @ (a # as),
                        selected_classifiers := selected_classifiers self @ (c # cs)\<rparr>"
      unfolding s' s1 by simp
    moreover have "length (a # as) = length (c # cs)" "length (a # as) \<le> Suc k"
      using l by simp_all
    ultimately show ?thesis by blast
  qed
qed

lemma fit_records:
  assumes "fit np_sum self X y = (st, self')"
  shows "\<exists>as cs. self' = self\<lparr>alphas := alphas self @ as,
                            selected_classifiers := selected_classifiers self @ cs\<rparr>
            \<and> length as = length cs \<and> length as \<le> nat (n_estimators self)"
proof -
  from assms obtain w' where
    "fit_loop np_sum (nat (n_estimators self)) X y (initial_weights X) self = (st, w', self')"
    by (auto simp: fit_def split: prod.splits)
  then show ?thesis by (rule fit_loop_records)
qed


text \<open>
  Rounding at the test \<^verbatim>\<open>error >= 1.0\<close>. On six samples that the only candidate
  gets wrong, the selected weights are six times \<open>1 / 6\<close>. Their exact sum is 1, and
  with the exact summation the first round breaks; \<^verbatim>\<open>float64\<close> summation returns
  \<^verbatim>\<open>0.9999999999999999\<close>, and with any value below 1 for that sum the round
  completes and appends the weight the formula gives at that value.
\<close>

lemma six_wrong_samples_errors:
  "candidate_errors np_sum (example_ensemble 3)
     [[1], [1], [1], [1], [1], [1]] [- 1, - 1, - 1, - 1, - 1, - 1]
     (initial_weights [[1], [1], [1], [1], [1], [1]])
   = Inr [np_sum [1 / 6, 1 / 6, 1 / 6, 1 / 6, 1 / 6, 1 / 6]]"
  by (simp add: candidate_errors_def example_ensemble_def AdaBoost_init_def sign_of_first_def
      weighted_error_def np_broadcast_def initial_weights_def)

lemma six_wrong_samples_exact:
  "sum_list [1 / 6, 1 / 6, 1 / 6, 1 / 6, 1 / 6, 1 / 6 :: real] = 1
   \<and> fit_round sum_list (example_ensemble 3)
       [[1], [1], [1], [1], [1], [1]] [- 1, - 1, - 1, - 1, - 1, - 1]
       (initial_weights [[1], [1], [1], [1], [1], [1]]) = Break"
proof -
  have s: "sum_list [1 / 6, 1 / 6, 1 / 6, 1 / 6, 1 / 6, 1 / 6 :: real] = 1" by simp
  have b: "np_argmin [sum_list [1 / 6, 1 / 6, 1 / 6, 1 / 6, 1 / 6, 1 / 6 :: real]] = Inr 0"
    by simp
  have "fit_round sum_list (example_ensemble 3)
       [[1], [1], [1], [1], [1], [1]] [- 1, - 1, - 1, - 1, - 1, - 1]
       (initial_weights [[1], [1], [1], [1], [1], [1]]) = Break"
    using six_wrong_samples_errors b by (rule fit_round_Break) simp
  then show ?thesis using s by simp
qed

lemma six_wrong_samples_rounded:
  assumes "np_sum [1 / 6, 1 / 6, 1 / 6, 1 / 6, 1 / 6, 1 / 6] = e" and "e < 1"
  shows "\<exists>w'. fit_round np_sum (example_ensemble 3)
            [[1], [1], [1], [1], [1], [1]] [- 1, - 1, - 1, - 1, - 1, - 1]
            (initial_weights [[1], [1], [1], [1], [1], [1]])
          = Continue w' ((example_ensemble 3)
              \<lparr>alphas := [alpha_of e], selected_classifiers := [sign_of_first]\<rparr>)"
proof -
  have es: "candidate_errors np_sum (example_ensemble 3)
     [[1], [1], [1], [1], [1], [1]] [- 1, - 1, - 1, - 1, - 1, - 1]
     (initial_weights [[1], [1], [1], [1], [1], [1]]) = Inr [e]"
    using six_wrong_samples_errors [of np_sum] assms(1) by simp
  have b: "np_argmin [e] = Inr 0" by simp
  have lt: "[e] ! 0 < 1" using assms(2) by simp
  from fit_round_Continue [OF es b lt] obtain w' where
    "fit_round np_sum (example_ensemble 3)
        [[1], [1], [1], [1], [1], [1]] [- 1, - 1, - 1, - 1, - 1, - 1]
        (initial_weights [[1], [1], [1], [1], [1], [1]])
      = Continue w' ((example_ensemble 3)
          \<lparr>alphas := alphas (example_ensemble 3) @ [alpha_of ([e] ! 0)],
           selected_classifiers := selected_classifiers (example_ensemble 3)
              @ [weak_classifiers (example_ensemble 3) ! 0]\<rparr>)"
    by blast
  then show ?thesis by (simp add: example_ensemble_def AdaBoost_init_def)
qed




text \<open>
  C10. The two lists are empty after construction; a completed round appends exactly
  one element to each; \<^verbatim>\<open>fit\<close>, whether it returns or raises, keeps the records it
  found and appends equally many elements to both lists (at most \<^verbatim>\<open>n_estimators\<close>);
  so equal lengths are preserved, and a second call of \<^verbatim>\<open>fit\<close> appends after the
  records of the first. \<^verbatim>\<open>predict\<close> only reads the object.
\<close>

theorem records_only_grow:
  assumes "fit_round np_sum r X0 y0 w = Continue w' r'"
    and "fit np_sum self X y = (st1, s1)"
    and "fit np_sum s1 X2 y2 = (st2, s2)"
  shows "alphas (AdaBoost_init wcs n workers) = []
       \<and> selected_classifiers (AdaBoost_init wcs n workers) = []
       \<and> (\<exists>a c. alphas r' = alphas r @ [a]
                \<and> selected_classifiers r' = selected_classifiers r @ [c])
       \<and> (\<exists>as cs. alphas s1 = alphas self @ as
                \<and> selected_classifiers s1 = selected_classifiers self @ cs
                \<and> length as = length cs \<and> length as \<le> nat (n_estimators self))
       \<and> (\<exists>as cs. alphas s2 = alphas s1 @ as
                \<and> selected_classifiers s2 = selected_classifiers s1 @ cs
                \<and> length as = length cs \<and> length as \<le> nat (n_estimators s1))
       \<and> (length (alphas self) = length (selected_classifiers self) \<longrightarrow>
            length (alphas s1) = length (selected_classifiers s1)
          \<and> length (alphas s2) = length (selected_classifiers s2))"
proof -
  from fit_round_Continue_records [OF assms(1)] obtain a c where
    "r' = r\<lparr>alphas := alphas r @ [a], selected_classifiers := selected_classifiers r @ [c]\<rparr>"
    by blast
  then have round: "\<exists>a c. alphas r' = alphas r @ [a]
                \<and> selected_classifiers r' = selected_classifiers r @ [c]"
    by auto
  from fit_records [OF assms(2)] obtain as1 cs1 where
    s1: "s1 = self\<lparr>alphas := alphas self @ as1,
                    selected_classifiers := selected_classifiers self @ cs1\<rparr>"
    and l1: "length as1 = length cs1" "length as1 \<le> nat (n_estimators self)"
    by blast
  from fit_records [OF assms(3)] obtain as2 cs2 where
    s2: "s2 = s1\<lparr>alphas := alphas s1 @ as2,
                  selected_classifiers := selected_classifiers s1 @ cs2\<rparr>"
    and l2: "length as2 = length cs2" "length as2 \<le> nat (n_estimators s1)"
    by blast
  have first: "\<exists>as cs. alphas s1 = alphas self @ as
                \<and> selected_classifiers s1 = selected_classifiers self @ cs
                \<and> length as = length cs \<and> length as \<le> nat (n_estimators self)"
    using s1 l1 by auto
  have second: "\<exists>as cs. alphas s2 = alphas s1 @ as
                \<and> selected_classifiers s2 = selected_classifiers s1 @ cs
                \<and> length as = length cs \<and> length as \<le> nat (n_estimators s1)"
    using s2 l2 by auto
  have inv: "length (alphas self) = length (selected_classifiers self) \<longrightarrow>
            length (alphas s1) = length (selected_classifiers s1)
          \<and> length (alphas s2) = length (selected_classifiers s2)"
    using s1 l1 s2 l2 by simp
  have init: "alphas (AdaBoost_init wcs n workers) = []"
    "selected_classifiers (AdaBoost_init wcs n workers) = []"
    by (simp_all add: AdaBoost_init_def)
  show ?thesis
    using init round first second inv by (intro conjI)
qed

text \<open>
  The theorem on two successive calls of \<^verbatim>\<open>fit\<close> on the same object.
\<close>

theorem records_only_grow_witness:
  "fit_round sum_list (example_ensemble 1) [[1]] [1] [1] = Continue [1] example_once
   \<and> fit sum_list (example_ensemble 1) [[1]] [1] = (None, example_once)
   \<and> fit sum_list example_once [[1]] [1] = (None, example_twice)
   \<and> length (alphas (example_ensemble 1)) = length (selected_classifiers (example_ensemble 1))
   \<and> alphas example_twice = alphas example_once @ [example_alpha]
   \<and> length (alphas example_twice) = length (selected_classifiers example_twice)"
proof -
  have e: "length (alphas (example_ensemble 1)) = length (selected_classifiers (example_ensemble 1))"
    by (simp add: example_ensemble_def AdaBoost_init_def)
  from records_only_grow [OF ex_round_fresh ex_fit_fresh ex_fit_again] e
  have "length (alphas example_twice) = length (selected_classifiers example_twice)"
    by blast
  moreover have "alphas example_twice = alphas example_once @ [example_alpha]"
    by (simp add: example_once_def example_twice_def)
  ultimately show ?thesis using ex_round_fresh ex_fit_fresh ex_fit_again e by (intro conjI)
qed

section \<open>\<^verbatim>\<open>AdaBoost.fit\<close>: the weight vector (C3)\<close>

lemma sum_list_pos_real:
  fixes xs :: "real list"
  shows "xs \<noteq> [] \<Longrightarrow> \<forall>v\<in>set xs. 0 < v \<Longrightarrow> 0 < sum_list xs"
proof (induction xs)
  case Nil
  then show ?case by simp
next
  case (Cons x xs)
  show ?case
  proof (cases "xs = []")
    case True
    then show ?thesis using Cons.prems by simp
  next
    case False
    then have "0 < sum_list xs" using Cons by simp
    then show ?thesis using Cons.prems by (simp add: add_pos_pos)
  qed
qed

lemma sum_list_divide_real:
  fixes xs :: "real list"
  shows "sum_list (map (\<lambda>v. v / c) xs) = sum_list xs / c"
  by (induction xs) (simp_all add: add_divide_distrib)

lemma normalize_weights:
  fixes xs :: "real list"
  assumes "xs \<noteq> []" and "\<forall>v\<in>set xs. 0 < v"
  shows "sum_list (map (\<lambda>v. v / sum_list xs) xs) = 1"
    and "\<forall>v\<in>set (map (\<lambda>v. v / sum_list xs) xs). 0 < v"
proof -
  have pos: "0 < sum_list xs" using assms by (rule sum_list_pos_real)
  show "sum_list (map (\<lambda>v. v / sum_list xs) xs) = 1"
    using pos by (simp add: sum_list_divide_real)
  show "\<forall>v\<in>set (map (\<lambda>v. v / sum_list xs) xs). 0 < v"
    using pos assms(2) by auto
qed

lemma np_imul_exp_pos:
  assumes "np_imul w (map exp ex) = Inr w1" and "\<forall>v\<in>set w. 0 < v"
  shows "length w1 = length w \<and> (\<forall>v\<in>set w1. 0 < v)"
proof (cases "length ex = length w")
  case True
  then have "w1 = map2 (*) w (map exp ex)" using assms(1) by (simp add: np_imul_def)
  then show ?thesis using True assms(2)
    by (auto simp: set_zip)
next
  case False
  then have one: "length ex = 1" and w1: "w1 = map (\<lambda>x. x * hd (map exp ex)) w"
    using assms(1) by (auto simp: np_imul_def split: if_splits)
  from one obtain a where "ex = [a]" by (cases ex) auto
  then show ?thesis using w1 assms(2) by auto
qed

lemma fit_round_weights_ok:
  assumes "fit_round np_sum self X y w = Continue w' self'" and "weights_ok w"
  shows "weights_ok w'"
proof -
  from assms(1) obtain ex w1 where imul: "np_imul w (map exp ex) = Inr w1"
    and w': "w' = map (\<lambda>v. v / sum_list w1) w1"
    by (auto simp: fit_round_def Let_def split: sum.splits if_splits)
  have pos: "\<forall>v\<in>set w. 0 < v" and ne: "w \<noteq> []"
    using assms(2) by (simp_all add: weights_ok_def list_all_iff)
  from np_imul_exp_pos [OF imul pos] have l: "length w1 = length w" and p1: "\<forall>v\<in>set w1. 0 < v"
    by simp_all
  from l ne have ne1: "w1 \<noteq> []" by auto
  show ?thesis
    unfolding w' weights_ok_def list_all_iff
    using normalize_weights [OF ne1 p1] ne1 by simp
qed

lemma initial_weights_ok: "X \<noteq> [] \<Longrightarrow> weights_ok (initial_weights X)"
  by (simp add: weights_ok_def initial_weights_def Let_def list_all_iff sum_list_divide_real
      sum_list_replicate)

lemma fit_loop_weights_ok:
  "fit_loop np_sum k X y w self = (st, w', self') \<Longrightarrow> weights_ok w \<Longrightarrow> weights_ok w'"
proof (induction k arbitrary: w self)
  case 0
  then show ?case by simp
next
  case (Suc k)
  show ?case
  proof (cases "fit_round np_sum self X y w")
    case (Raise e)
    then show ?thesis using Suc.prems by simp
  next
    case Break
    then show ?thesis using Suc.prems by simp
  next
    case (Continue w1 self1)
    then have "fit_loop np_sum k X y w1 self1 = (st, w', self')" using Suc.prems(1) by simp
    moreover have "weights_ok w1" using Continue Suc.prems(2) by (rule fit_round_weights_ok)
    ultimately show ?thesis by (rule Suc.IH)
  qed
qed

text \<open>
  Without samples the weight vector is empty and its sum is 0: the claim is about
  sample matrices with at least one row.
\<close>

lemma initial_weights_empty: "initial_weights [] = [] \<and> sum_list (initial_weights []) = 0"
  by (simp add: initial_weights_def)

text \<open>
  C3. For a sample matrix with at least one sample, the weight vector after the
  initialisation (\<open>k = 0\<close>) and after any number \<open>k\<close> of rounds of the loop sums to 1
  and has no negative entry, whatever the labels, the candidates and the values of the
  weighted errors are.
\<close>

theorem fit_weights_normalized:
  assumes "X \<noteq> []" and "fit_loop np_sum k X y (initial_weights X) self = (st, w, self')"
  shows "sum_list w = 1 \<and> (\<forall>v\<in>set w. 0 \<le> v)"
proof -
  have "weights_ok w"
    using assms(2) initial_weights_ok [OF assms(1)] by (rule fit_loop_weights_ok)
  then show ?thesis by (auto simp: weights_ok_def list_all_iff intro: less_imp_le)
qed

text \<open>
  The theorem after one completed round on a single sample.
\<close>

theorem fit_weights_normalized_witness:
  "[[1 :: real]] \<noteq> []
   \<and> fit_loop sum_list 1 [[1]] [1] (initial_weights [[1]]) (example_ensemble 1) = (None, [1], example_once)
   \<and> sum_list [1 :: real] = 1 \<and> list_all (\<lambda>v. 0 \<le> v) [1 :: real]"
proof -
  have h1: "[[1 :: real]] \<noteq> []" by simp
  have h2: "fit_loop sum_list 1 [[1]] [1] (initial_weights [[1]]) (example_ensemble 1)
              = (None, [1], example_once)"
    using ex_round_fresh by (simp add: initial_weights_def)
  from fit_weights_normalized [OF h1 h2] show ?thesis using h1 h2 by simp
qed

section \<open>\<^verbatim>\<open>AdaBoost.fit\<close> without candidates (C5)\<close>

text \<open>
  C5, as amended. With an empty list of weak classifiers, \<^verbatim>\<open>fit\<close> raises
  \<^verbatim>\<open>ValueError\<close> (from \<^verbatim>\<open>np.argmin\<close> of the empty error array) in the first round
  of the loop when \<^verbatim>\<open>n_estimators\<close> is at least 1, and leaves the ensemble as it was;
  when \<^verbatim>\<open>n_estimators\<close> is 0 or negative the body of the loop never runs and \<^verbatim>\<open>fit\<close>
  returns normally.
\<close>

theorem fit_without_candidates:
  assumes "weak_classifiers self = []"
  shows "fit np_sum self X y =
           (if 1 \<le> n_estimators self then (Some ValueError, self) else (None, self))"
proof (cases "1 \<le> n_estimators self")
  case True
  then obtain k where k: "nat (n_estimators self) = Suc k"
    by (cases "nat (n_estimators self)") auto
  have "fit_round np_sum self X y w = Raise ValueError" for w
    using assms by (simp add: fit_round_def)
  then show ?thesis using True by (simp add: fit_def k)
next
  case False
  then have "nat (n_estimators self) = 0" by simp
  then show ?thesis using False by (simp add: fit_def)
qed

text \<open>
  The theorem with the default \<^verbatim>\<open>n_estimators = 50\<close>.
\<close>

theorem fit_without_candidates_witness:
  "weak_classifiers (AdaBoost_init [] 50 1) = []
   \<and> fit sum_list (AdaBoost_init [] 50 1) [[1]] [1] = (Some ValueError, AdaBoost_init [] 50 1)"
proof -
  have h: "weak_classifiers (AdaBoost_init [] 50 1) = []" by (simp add: AdaBoost_init_def)
  have n: "n_estimators (AdaBoost_init [] 50 1) = 50" by (simp add: AdaBoost_init_def)
  from fit_without_candidates [OF h, of sum_list "[[1]]" "[1]"] show ?thesis using h n by simp
qed

text \<open>
  C5 as stated asks for a failure on every input. With \<^verbatim>\<open>n_estimators = 0\<close> the call
  returns.
\<close>

theorem fit_without_candidates_succeeds:
  "weak_classifiers (AdaBoost_init [] 0 1) = []
   \<and> fit sum_list (AdaBoost_init [] 0 1) [[1]] [1] = (None, AdaBoost_init [] 0 1)"
  by (simp add: fit_def AdaBoost_init_def)

section \<open>\<^verbatim>\<open>AdaBoost.predict\<close> (C4, C6)\<close>

lemma foldl_axpy:
  fixes rows :: "real list list"
  assumes "length a = length rows" and "\<forall>r\<in>set rows. length r = n" and "length acc = n"
  shows "length (foldl (\<lambda>acc (c, row). map2 (+) acc (map ((*) c) row)) acc (zip a rows)) = n
       \<and> (\<forall>i<n. foldl (\<lambda>acc (c, row). map2 (+) acc (map ((*) c) row)) acc (zip a rows) ! i
                  = acc ! i + (\<Sum>j<length rows. a ! j * rows ! j ! i))"
  using assms
proof (induction rows arbitrary: a acc)
  case Nil
  then show ?case by simp
next
  case (Cons row rows)
  from Cons.prems(1) obtain c a' where a: "a = c # a'" and la: "length a' = length rows"
    by (cases a) auto
  let ?F = "\<lambda>acc (c, row). map2 (+) acc (map ((*) c) row)"
  let ?acc = "map2 (+) acc (map ((*) c) row)"
  have lrow: "length row = n" and lrows: "\<forall>r\<in>set rows. length r = n"
    using Cons.prems(2) by simp_all
  have lacc: "length ?acc = n" using lrow Cons.prems(3) by simp
  have nacc: "?acc ! i = acc ! i + c * row ! i" if "i < n" for i
    using that lrow Cons.prems(3) by simp
  from Cons.IH [OF la lrows lacc]
  have len: "length (foldl ?F ?acc (zip a' rows)) = n"
    and nth: "\<forall>i<n. foldl ?F ?acc (zip a' rows) ! i = ?acc ! i + (\<Sum>j<length rows. a' ! j * rows ! j ! i)"
    by simp_all
  have step: "foldl ?F acc (zip a (row # rows)) = foldl ?F ?acc (zip a' rows)"
    unfolding a by simp
  have "foldl ?F acc (zip a (row # rows)) ! i
          = acc ! i + (\<Sum>j<length (row # rows). a ! j * (row # rows) ! j ! i)" if "i < n" for i
  proof -
    have "(\<Sum>j<length (row # rows). a ! j * (row # rows) ! j ! i)
            = c * row ! i + (\<Sum>j<length rows. a' ! j * rows ! j ! i)"
      unfolding a by (simp add: sum.lessThan_Suc_shift del: sum.lessThan_Suc)
    then show ?thesis using nth nacc that unfolding step by simp
  qed
  then show ?case using len unfolding step by blast
qed

text \<open>
  C4. For an ensemble with at least one record, as many weights as classifiers, and
  selected classifiers that each return \<open>n\<close> predictions on \<open>X\<close>, \<^verbatim>\<open>predict\<close> returns
  the vector whose entry \<open>i\<close> is \<open>1\<close> if the sum over the records \<open>j\<close> of
  \<open>alpha j * prediction j i\<close> is strictly positive and \<open>-1\<close> otherwise, a sum of zero
  included.
\<close>

theorem predict_weighted_vote:
  assumes "selected_classifiers self \<noteq> []"
    and "length (alphas self) = length (selected_classifiers self)"
    and "\<forall>clf\<in>set (selected_classifiers self). length (clf X) = n"
    and "1 \<le> num_workers self"
  shows "predict self X =
           Inr (Arr1 (map (\<lambda>i. if 0 < (\<Sum>j<length (selected_classifiers self).
                                         alphas self ! j * (selected_classifiers self ! j) X ! i)
                                then 1 else - 1) [0..<n]))"
proof -
  let ?rows = "map (\<lambda>clf. clf X) (selected_classifiers self)"
  let ?F = "\<lambda>acc (c, row). map2 (+) acc (map ((*) c) row)"
  let ?d = "foldl ?F (replicate n 0) (zip (alphas self) ?rows)"
  have ne: "?rows \<noteq> []" using assms(1) by simp
  have all: "\<forall>r\<in>set ?rows. length r = n" using assms(3) by simp
  have hd: "length (hd ?rows) = n" using ne all by (metis hd_in_set)
  have arr: "np_array ?rows = Inr ?rows" using all hd by (simp add: np_array_def)
  have la: "length (alphas self) = length ?rows" using assms(2) by simp
  have dot: "np_dot (alphas self) ?rows = Inr (Arr1 ?d)"
    using ne la hd unfolding np_dot_def by simp
  from foldl_axpy [OF la all, of "replicate n 0"]
  have len: "length ?d = n"
    and nth: "\<forall>i<n. ?d ! i = replicate n 0 ! i + (\<Sum>j<length ?rows. alphas self ! j * ?rows ! j ! i)"
    by simp_all
  have d: "?d = map (\<lambda>i. \<Sum>j<length (selected_classifiers self).
                        alphas self ! j * (selected_classifiers self ! j) X ! i) [0..<n]"
  proof (rule nth_equalityI)
    show "length ?d = length (map (\<lambda>i. \<Sum>j<length (selected_classifiers self).
                        alphas self ! j * (selected_classifiers self ! j) X ! i) [0..<n])"
      using len by simp
  next
    fix i assume "i < length ?d"
    then have i: "i < n" using len by simp
    then have "?d ! i = (\<Sum>j<length ?rows. alphas self ! j * ?rows ! j ! i)"
      using nth by simp
    also have "\<dots> = (\<Sum>j<length (selected_classifiers self).
                        alphas self ! j * (selected_classifiers self ! j) X ! i)"
      by (rule sum.cong) simp_all
    finally show "?d ! i = map (\<lambda>i. \<Sum>j<length (selected_classifiers self).
                        alphas self ! j * (selected_classifiers self ! j) X ! i) [0..<n] ! i"
      using i by simp
  qed
  have "predict self X = Inr (np_where_pos (Arr1 ?d))"
    using assms(4) arr dot by (simp add: predict_def)
  then show ?thesis unfolding d by (simp add: comp_def)
qed

text \<open>
  The theorem on \<open>example_twice\<close> and three samples.
\<close>

theorem predict_weighted_vote_witness:
  "selected_classifiers example_twice \<noteq> []
   \<and> length (alphas example_twice) = length (selected_classifiers example_twice)
   \<and> list_all (\<lambda>clf. length (clf [[1], [- 1], []]) = 3) (selected_classifiers example_twice)
   \<and> 1 \<le> num_workers example_twice
   \<and> predict example_twice [[1], [- 1], []] = Inr (Arr1 [1, - 1, - 1])"
proof -
  have h1: "selected_classifiers example_twice \<noteq> []" by (simp add: example_twice_def)
  have h2: "length (alphas example_twice) = length (selected_classifiers example_twice)"
    by (simp add: example_twice_def)
  have h3: "\<forall>clf\<in>set (selected_classifiers example_twice). length (clf [[1], [- 1], []]) = 3"
    by (simp add: example_twice_def sign_of_first_def)
  have h4: "1 \<le> num_workers example_twice"
    by (simp add: example_twice_def example_ensemble_def AdaBoost_init_def)
  have pos: "0 < example_alpha" by (simp add: example_alpha_def)
  have upt: "[0..<3] = [0, 1, 2]" by code_simp
  have "predict example_twice [[1], [- 1], []] = Inr (Arr1 [1, - 1, - 1])"
    using predict_weighted_vote [OF h1 h2 h3 h4] pos unfolding upt
    by (simp add: example_twice_def sign_of_first_def)
  then show ?thesis using h1 h2 h3 h4 by (simp add: list_all_iff)
qed

text \<open>
  C6, as amended. On an ensemble without records \<^verbatim>\<open>predict\<close> does not fail for a
  positive \<^verbatim>\<open>num_workers\<close>: the score is the empty dot product \<open>0.0\<close> and the result
  is the 0-dimensional array \<open>-1\<close>, for every input. (For \<^verbatim>\<open>num_workers \<le> 0\<close> the
  thread pool's constructor raises \<^verbatim>\<open>ValueError\<close>.)
\<close>

theorem predict_without_records:
  assumes "alphas self = []" and "selected_classifiers self = []"
  shows "predict self X = (if num_workers self \<le> 0 then Inl ValueError else Inr (Arr0 (- 1)))"
  using assms by (simp add: predict_def np_array_def np_dot_def)

text \<open>
  The theorem with four workers and two samples.
\<close>

theorem predict_without_records_witness:
  "alphas (AdaBoost_init [sign_of_first] 0 4) = []
   \<and> selected_classifiers (AdaBoost_init [sign_of_first] 0 4) = []
   \<and> predict (AdaBoost_init [sign_of_first] 0 4) [[1], [2]] = Inr (Arr0 (- 1))"
proof -
  have h1: "alphas (AdaBoost_init [sign_of_first] 0 4) = []" by (simp add: AdaBoost_init_def)
  have h2: "selected_classifiers (AdaBoost_init [sign_of_first] 0 4) = []"
    by (simp add: AdaBoost_init_def)
  have n: "num_workers (AdaBoost_init [sign_of_first] 0 4) = 4" by (simp add: AdaBoost_init_def)
  from predict_without_records [OF h1 h2, of "[[1], [2]]"] show ?thesis using h1 h2 n by simp
qed

text \<open>
  C6 as stated asks for a failure. After a call of \<^verbatim>\<open>fit\<close> with \<^verbatim>\<open>n_estimators = 0\<close>,
  \<^verbatim>\<open>predict\<close> returns.
\<close>

theorem predict_after_empty_fit_returns:
  "fit sum_list (AdaBoost_init [sign_of_first] 0 1) [[1]] [1] = (None, AdaBoost_init [sign_of_first] 0 1)
   \<and> predict (AdaBoost_init [sign_of_first] 0 1) [[1]] = Inr (Arr0 (- 1))"
  by (simp add: fit_def predict_def AdaBoost_init_def np_array_def np_dot_def)

end
